theory Spec2Isabelle
  imports Complex_Main
begin

section \<open>The composed constraint of a calibrated model\<close>

text \<open>
  Source: \<^verbatim>\<open>ql/models/shortrate/model.hpp\<close>, class
  \<^verbatim>\<open>CalibratedModel::PrivateConstraint::Impl\<close>.

  An \<^verbatim>\<open>Array\<close> is a sequence of \<^verbatim>\<open>Real\<close>s. The function \<^verbatim>\<open>test\<close> only copies
  entries from one array to another and never computes with them, so the entries are
  taken as reals. Counters of type \<^verbatim>\<open>Size\<close> are natural numbers: \<^verbatim>\<open>i\<close> stays below
  \<^verbatim>\<open>arguments_.size()\<close>, \<^verbatim>\<open>j\<close> below the size of an existing array, and \<^verbatim>\<open>k\<close> is
  incremented only after the entry of \<^verbatim>\<open>params\<close> at index \<^verbatim>\<open>k\<close> has been read, so
  none of them can wrap around.
\<close>

type_synonym Array = "real list"

text \<open>
  Modelled from the spec: the class \<^verbatim>\<open>Parameter\<close> is declared in
  \<^verbatim>\<open>ql/models/shortrate/parameter.hpp\<close>, which is not among the sources. The spec
  describes a parameter as a raw coefficient vector of a fixed size together with a
  constraint predicate over raw coefficient vectors; \<^verbatim>\<open>size()\<close> is the size of the
  coefficient vector and \<^verbatim>\<open>testParams(v)\<close> is the (pure) constraint applied to \<^verbatim>\<open>v\<close>.
\<close>

record Parameter =
  coefficients :: Array
  constraint :: "Array \<Rightarrow> bool"

definition size_Parameter :: "Parameter \<Rightarrow> nat" where
  "size_Parameter p = length (coefficients p)"

definition testParams :: "Parameter \<Rightarrow> Array \<Rightarrow> bool" where
  "testParams p v = constraint p v"

text \<open>
  The only way \<^verbatim>\<open>test\<close> can leave its normal path is the read \<^verbatim>\<open>params[k]\<close> with
  \<^verbatim>\<open>k\<close> not below the size of \<^verbatim>\<open>params\<close>. The function itself has no check of the
  length of \<^verbatim>\<open>params\<close>; what such a read does is decided by \<^verbatim>\<open>Array::operator[]\<close>,
  which is not among the sources. The model stops there and reports the index.
\<close>

datatype array_fault = ReadPastEnd nat

text \<open>
  The inner loop
  \<^verbatim>\<open>for (Size j=0; j<size; j++, k++) testParams[j] = params[k];\<close>
  with its state \<^verbatim>\<open>(j, k, testParams)\<close>. It returns the filled array and the cursor
  \<^verbatim>\<open>k\<close>, which the outer loop keeps.
\<close>

function copy_slice :: "Array \<Rightarrow> nat \<Rightarrow> nat \<Rightarrow> nat \<Rightarrow> Array \<Rightarrow> array_fault + (Array \<times> nat)" where
  "copy_slice params sz j k testParams_v =
     (if j < sz then
        (if k < length params
         then copy_slice params sz (j + 1) (k + 1) (testParams_v[j := params ! k])
         else Inl (ReadPastEnd k))
      else Inr (testParams_v, k))"
  by pat_completeness auto
termination
  by (relation "measure (\<lambda>(params, sz, j, k, t). sz - j)") auto

declare copy_slice.simps [simp del]

text \<open>
  The outer loop \<^verbatim>\<open>for (Size i=0; i<arguments_.size(); i++) { ... }\<close> with its state
  \<^verbatim>\<open>(i, k)\<close>. \<^verbatim>\<open>Array testParams(size)\<close> allocates \<^verbatim>\<open>size\<close> entries, all of which
  the inner loop overwrites before the array is used. The result is the returned boolean
  together with the value of the cursor \<^verbatim>\<open>k\<close> at the return: the entries of
  \<^verbatim>\<open>params\<close> that were read are exactly those at the indices below it.
\<close>

function test_loop :: "Parameter list \<Rightarrow> Array \<Rightarrow> nat \<Rightarrow> nat \<Rightarrow> array_fault + (bool \<times> nat)" where
  "test_loop arguments params i k =
     (if i < length arguments then
        (let sz = size_Parameter (arguments ! i) in
         case copy_slice params sz 0 k (replicate sz 0) of
           Inl e \<Rightarrow> Inl e
         | Inr (testParams_v, k') \<Rightarrow>
             if \<not> testParams (arguments ! i) testParams_v then Inr (False, k')
             else test_loop arguments params (i + 1) k')
      else Inr (True, k))"
  by pat_completeness auto
termination
  by (relation "measure (\<lambda>(arguments, params, i, k). length arguments - i)") auto

declare test_loop.simps [simp del]

text \<open>\<^verbatim>\<open>bool test(const Array& params) const\<close>: the loop from \<^verbatim>\<open>i = 0\<close>, \<^verbatim>\<open>k = 0\<close>.\<close>

definition test :: "Parameter list \<Rightarrow> Array \<Rightarrow> array_fault + bool" where
  "test arguments params = map_sum id fst (test_loop arguments params 0 0)"

text \<open>The sum of the sizes of the parameters, and where the slice of parameter \<open>i\<close> starts.\<close>

definition total_size :: "Parameter list \<Rightarrow> nat" where
  "total_size arguments = sum_list (map size_Parameter arguments)"

definition slice_start :: "Parameter list \<Rightarrow> nat \<Rightarrow> nat" where
  "slice_start arguments i = total_size (take i arguments)"

definition slice_of :: "Parameter list \<Rightarrow> Array \<Rightarrow> nat \<Rightarrow> Array" where
  "slice_of arguments v i =
     take (size_Parameter (arguments ! i)) (drop (slice_start arguments i) v)"

text \<open>Concrete parameters used to evaluate the model.\<close>

definition any_param :: Parameter where
  "any_param = \<lparr>coefficients = [0], constraint = (\<lambda>v. True)\<rparr>"

definition no_param :: Parameter where
  "no_param = \<lparr>coefficients = [0], constraint = (\<lambda>v. False)\<rparr>"

definition positive_pair :: Parameter where
  "positive_pair = \<lparr>coefficients = [1, 1], constraint = (\<lambda>v. \<forall>x \<in> set v. 0 < x)\<rparr>"

section \<open>The update of a calibrated model\<close>

text \<open>
  Source: \<^verbatim>\<open>ql/models/shortrate/model.hpp\<close>, class \<^verbatim>\<open>CalibratedModel\<close>:
  \<^verbatim>\<open>void update() { generateArguments(); notifyObservers(); }\<close> and the protected
  \<^verbatim>\<open>virtual void generateArguments() {}\<close>.

  The state of the object is its member \<^verbatim>\<open>arguments_\<close>, the observers registered with
  it (it is an \<^verbatim>\<open>Observable\<close>), and a history of the calls made on it, which is what a
  statement about the order of calls speaks of. The member \<^verbatim>\<open>constraint_\<close> plays no role in
  \<^verbatim>\<open>update\<close> and is left out.
\<close>

datatype event =
    Called_generateArguments
  | Called_notifyObservers
  | Observer_update nat

record CalibratedModel =
  arguments_m :: "Parameter list"
  observers_m :: "nat list"
  history :: "event list"

text \<open>
  \<^verbatim>\<open>generateArguments\<close> is virtual: a derived model supplies its own body, which may do
  anything to the object and may leave by an exception. The body is a parameter of the
  model: it either returns the object as it leaves it, or throws, with the object as it
  is at that moment. The body of the base class is empty.
\<close>

type_synonym exception = string

type_synonym hook = "CalibratedModel \<Rightarrow> (exception \<times> CalibratedModel) + CalibratedModel"

definition generateArguments_base :: hook where
  "generateArguments_base m = Inr m"

definition generateArguments :: "hook \<Rightarrow> CalibratedModel \<Rightarrow> (exception \<times> CalibratedModel) + CalibratedModel" where
  "generateArguments body m = body (m\<lparr>history := history m @ [Called_generateArguments]\<rparr>)"

text \<open>
  Modelled from the spec: \<^verbatim>\<open>Observable::notifyObservers\<close> is declared outside the sources.
  By the spec it visits every currently registered observer, in registration order, and
  invokes the update hook of each; no operation of that component fails as a normal case.
\<close>

definition notifyObservers :: "CalibratedModel \<Rightarrow> CalibratedModel" where
  "notifyObservers m =
     m\<lparr>history := history m @ Called_notifyObservers # map Observer_update (observers_m m)\<rparr>"

text \<open>
  \<^verbatim>\<open>update\<close> has no handler around the call of the hook: an exception thrown by the
  hook leaves \<^verbatim>\<open>update\<close> at once, before \<^verbatim>\<open>notifyObservers\<close> is reached.
\<close>

definition update :: "hook \<Rightarrow> CalibratedModel \<Rightarrow> (exception \<times> CalibratedModel) + CalibratedModel" where
  "update body m =
     (case generateArguments body m of
        Inl thrown \<Rightarrow> Inl thrown
      | Inr m1 \<Rightarrow> Inr (notifyObservers m1))"

text \<open>
  A derived model whose hook recomputes its arguments, one whose hook throws, and a
  concrete object.
\<close>

definition doubling_hook :: hook where
  "doubling_hook m = Inr (m\<lparr>arguments_m := arguments_m m @ arguments_m m\<rparr>)"

definition throwing_hook :: hook where
  "throwing_hook m = Inl (''arguments cannot be generated'', m)"

definition some_model :: CalibratedModel where
  "some_model = \<lparr>arguments_m = [any_param], observers_m = [4, 9], history = []\<rparr>"

section \<open>Models consistent with a term structure\<close>

text \<open>
  Source: \<^verbatim>\<open>ql/models/shortrate/model.hpp\<close>, class \<^verbatim>\<open>TermStructureConsistentModel\<close>.

  Modelled from the spec: \<^verbatim>\<open>Handle\<close> is declared outside the sources. By the spec a
  handle is a reference to an indirection cell whose target, a curve, can be replaced or
  be absent; a model holds its curve by reference, not by copy. A handle is the address of
  its cell, and a copy of a handle is the same address. The cells are in the store
  \<open>links\<close>; dereferencing an empty handle fails.
\<close>

type_synonym Handle = nat

datatype curve_error = NoUnderlyingCurve | NotADecorator

definition currentLink :: "(Handle \<Rightarrow> 'c option) \<Rightarrow> Handle \<Rightarrow> curve_error + 'c" where
  "currentLink links h = (case links h of None \<Rightarrow> Inl NoUnderlyingCurve | Some c \<Rightarrow> Inr c)"

text \<open>
  The store of the cells, with a record of the handles that have been dereferenced: a query
  of the underlying curve through a handle reads the cell and leaves its trace there.
\<close>

record 'c curve_store =
  cells :: "Handle \<Rightarrow> 'c option"
  queried :: "Handle list"

definition query_link :: "Handle \<Rightarrow> 'c curve_store \<Rightarrow> (curve_error + 'c) \<times> 'c curve_store" where
  "query_link h s = (currentLink (cells s) h, s\<lparr>queried := queried s @ [h]\<rparr>)"

definition empty_store :: "'c curve_store" where
  "empty_store = \<lparr>cells = (\<lambda>h. None), queried = []\<rparr>"

record TermStructureConsistentModel =
  termStructure_m :: Handle

text \<open>
  The constructor \<^verbatim>\<open>: termStructure_(termStructure) {}\<close>: it copies the handle into the
  member and its body is empty, so it has no failing path and does nothing to the store.
  The accessor is \<^verbatim>\<open>const\<close> and returns the member.
\<close>

definition new_TermStructureConsistentModel ::
    "Handle \<Rightarrow> 'c curve_store \<Rightarrow> (curve_error + TermStructureConsistentModel) \<times> 'c curve_store" where
  "new_TermStructureConsistentModel termStructure_arg s =
     (Inr \<lparr>termStructure_m = termStructure_arg\<rparr>, s)"

definition termStructure :: "TermStructureConsistentModel \<Rightarrow> Handle" where
  "termStructure m = termStructure_m m"

text \<open>
  The class declares no assignment operator, and its member is neither \<^verbatim>\<open>const\<close> nor a
  reference: the copy assignment \<^verbatim>\<open>a = b\<close> is the implicitly declared one, which assigns
  the member. (It is there as long as the base class \<^verbatim>\<open>Observable\<close> and \<^verbatim>\<open>Handle\<close>, both
  declared outside the sources, are assignable.)
\<close>

definition copy_assign ::
    "TermStructureConsistentModel \<Rightarrow> TermStructureConsistentModel \<Rightarrow> TermStructureConsistentModel" where
  "copy_assign this other = this\<lparr>termStructure_m := termStructure_m other\<rparr>"

section \<open>Curve decorators and change notification\<close>

text \<open>
  Modelled from the spec: the curve decorators (\<^verbatim>\<open>ZeroSpreadedTermStructure\<close>,
  \<^verbatim>\<open>ForwardSpreadedTermStructure\<close>, \<^verbatim>\<open>ImpliedTermStructure\<close>), \<^verbatim>\<open>RelinkableHandle\<close>,
  \<^verbatim>\<open>SimpleQuote\<close>, \<^verbatim>\<open>Observable\<close>, \<^verbatim>\<open>Observer\<close> and the test utility \<^verbatim>\<open>Flag\<close>
  are used by \<^verbatim>\<open>test-suite/termstructures.cpp\<close> but defined outside the sources. The
  definitions of this section follow sections 3, 4.1, 4.5 and 7 of the spec.

  The objects live in a store, addressed by numbers. An object is the cell of a relinkable
  handle (with its target, possibly absent), a quote (with its value), a decorator (with
  its kind, the handle of its underlying curve and, where it has one, its spread quote) or
  a flag (up or down). Every object has the list of the observers registered with it, in
  registration order. \<open>update_calls\<close> counts the invocations of the update hook of each
  object.
\<close>

datatype decorator_kind = ZeroSpreaded | ForwardSpreaded | Implied

datatype query = ReferenceDate | Discount int | ZeroRate int | ForwardRate int int

datatype 'c object =
    Link "'c option"
  | Quote real
  | Decorator decorator_kind Handle "nat option"
  | Flag bool

record 'c world =
  objects :: "nat \<Rightarrow> 'c object option"
  observers_of :: "nat \<Rightarrow> nat list"
  update_calls :: "nat \<Rightarrow> nat"
  next_id :: nat

definition empty_world :: "'c world" where
  "empty_world = \<lparr>objects = (\<lambda>i. None), observers_of = (\<lambda>i. []), update_calls = (\<lambda>i. 0), next_id = 0\<rparr>"

definition new_object :: "'c object \<Rightarrow> 'c world \<Rightarrow> nat \<times> 'c world" where
  "new_object ob w =
     (next_id w, w\<lparr>objects := (objects w)(next_id w \<mapsto> ob), next_id := Suc (next_id w)\<rparr>)"

text \<open>
  \<^verbatim>\<open>registerWith\<close> establishes a dependency edge; an observable holds a set of observers,
  so registering twice adds nothing.
\<close>

definition registerWith :: "nat \<Rightarrow> nat \<Rightarrow> 'c world \<Rightarrow> 'c world" where
  "registerWith observer observable w =
     (if observer \<in> set (observers_of w observable) then w
      else w\<lparr>observers_of := (observers_of w)(observable := observers_of w observable @ [observer])\<rparr>)"

text \<open>
  Constructing a decorator stores it and registers it with its underlying handle and with
  its spread quote. It does not look at the target of the handle and has no way to fail.
\<close>

definition new_decorator :: "decorator_kind \<Rightarrow> Handle \<Rightarrow> nat option \<Rightarrow> 'c world \<Rightarrow> nat \<times> 'c world" where
  "new_decorator kind h spread w =
     (let (d, w1) = new_object (Decorator kind h spread) w;
          w2 = registerWith d h w1;
          w3 = (case spread of None \<Rightarrow> w2 | Some q \<Rightarrow> registerWith d q w2)
      in (d, w3))"

text \<open>
  The update hook of an object: a flag goes up; a decorator forwards the notification to
  its own observers; the other objects observe nothing. The hook returns the store after
  its own effect and the observers it notifies in turn. An address with no object (an
  observer that no longer exists) is passed over.
\<close>

definition update_hook :: "nat \<Rightarrow> 'c world \<Rightarrow> 'c world \<times> nat list" where
  "update_hook x w =
     (let w1 = w\<lparr>update_calls := (update_calls w)(x := Suc (update_calls w x))\<rparr> in
      case objects w x of
        Some (Flag up) \<Rightarrow> (w1\<lparr>objects := (objects w1)(x \<mapsto> Flag True)\<rparr>, [])
      | Some (Decorator kind h spread) \<Rightarrow> (w1, observers_of w1 x)
      | Some (Link target) \<Rightarrow> (w1, [])
      | Some (Quote v) \<Rightarrow> (w1, [])
      | None \<Rightarrow> (w, []))"

text \<open>
  A notification is synchronous and depth first: the observers still to be visited are a
  stack, and the observers that a hook notifies are visited before the rest. The spec
  leaves cyclic registrations looping, so the number of hook invocations is bounded by
  fuel and running out of it is the result \<open>None\<close>.
\<close>

fun notify_observers :: "nat \<Rightarrow> nat list \<Rightarrow> 'c world \<Rightarrow> 'c world option" where
  "notify_observers fuel [] w = Some w"
| "notify_observers 0 (x # pending) w = None"
| "notify_observers (Suc fuel) (x # pending) w =
     (let (w1, forwarded) = update_hook x w in notify_observers fuel (forwarded @ pending) w1)"

text \<open>Relinking a handle and changing the value of a quote are change events.\<close>

definition linkTo :: "nat \<Rightarrow> Handle \<Rightarrow> 'c option \<Rightarrow> 'c world \<Rightarrow> 'c world option" where
  "linkTo fuel h target w =
     notify_observers fuel (observers_of w h) (w\<lparr>objects := (objects w)(h \<mapsto> Link target)\<rparr>)"



text \<open>The cells of the handles of a store, and the current value of a spread quote.\<close>

definition links_of :: "'c world \<Rightarrow> Handle \<Rightarrow> 'c option" where
  "links_of w h = (case objects w h of Some (Link target) \<Rightarrow> target | _ \<Rightarrow> None)"

definition spread_value :: "'c world \<Rightarrow> nat option \<Rightarrow> real option" where
  "spread_value w spread =
     (case spread of
        None \<Rightarrow> None
      | Some q \<Rightarrow> (case objects w q of Some (Quote v) \<Rightarrow> Some v | _ \<Rightarrow> None))"

text \<open>
  A query on a decorator goes to the underlying curve through the handle, and fails with
  the no-underlying-curve condition when the handle is empty. The closed form that a kind
  of decorator computes from the spread and the underlying curve is floating-point
  arithmetic; it is the parameter \<open>closed_form\<close>.
\<close>

definition decorator_query ::
    "(decorator_kind \<Rightarrow> real option \<Rightarrow> 'c \<Rightarrow> query \<Rightarrow> 'r) \<Rightarrow> 'c world \<Rightarrow> nat \<Rightarrow> query \<Rightarrow> curve_error + 'r" where
  "decorator_query closed_form w d qy =
     (case objects w d of
        Some (Decorator kind h spread) \<Rightarrow>
          (case currentLink (links_of w) h of
             Inl e \<Rightarrow> Inl e
           | Inr c \<Rightarrow> Inr (closed_form kind (spread_value w spread) c qy))
      | _ \<Rightarrow> Inl NotADecorator)"







text \<open>
  A store with a quote and an empty relinkable handle, and a closed form that answers every
  query with the underlying curve itself (curves being numbers there).
\<close>

definition null_underlying_world :: "nat world" where
  "null_underlying_world =
     (let (q, w1) = new_object (Quote (1 / 100)) empty_world;
          (h, w2) = new_object (Link None) w1
      in w2)"

definition curve_number :: "decorator_kind \<Rightarrow> real option \<Rightarrow> nat \<Rightarrow> query \<Rightarrow> nat" where
  "curve_number kind s c qy = c"


section \<open>Properties of the composed constraint\<close>

subsection \<open>The inner loop\<close>

lemma copy_slice_fits:
  "j \<le> sz \<Longrightarrow> length t = sz \<Longrightarrow> k + (sz - j) \<le> length params \<Longrightarrow>
   copy_slice params sz j k t = Inr (take j t @ take (sz - j) (drop k params), k + (sz - j))"
proof (induction params sz j k t rule: copy_slice.induct)
  case (1 params sz j k t)
  show ?case
  proof (cases "j < sz")
    case False
    with "1.prems" show ?thesis by (simp add: copy_slice.simps)
  next
    case True
    with "1.prems" have kl: "k < length params" by arith
    have step: "copy_slice params sz j k t = copy_slice params sz (j + 1) (k + 1) (t[j := params ! k])"
      using True kl by (subst copy_slice.simps) simp
    have ih: "copy_slice params sz (j + 1) (k + 1) (t[j := params ! k]) =
        Inr (take (j + 1) (t[j := params ! k]) @ take (sz - (j + 1)) (drop (k + 1) params),
             k + 1 + (sz - (j + 1)))"
      using "1.IH" [OF True kl] True "1.prems" by simp
    have a: "take (j + 1) (t[j := params ! k]) = take j t @ [params ! k]"
      using True "1.prems" by (simp add: take_Suc_conv_app_nth)
    have b: "take (sz - j) (drop k params) = params ! k # take (sz - (j + 1)) (drop (k + 1) params)"
    proof -
      have "sz - j = Suc (sz - (j + 1))" using True by simp
      moreover have "drop k params = params ! k # drop (k + 1) params"
        using kl by (simp add: Cons_nth_drop_Suc)
      ultimately show ?thesis by simp
    qed
    show ?thesis unfolding step ih a b using True by simp
  qed
qed

lemma copy_slice_past:
  "j \<le> sz \<Longrightarrow> k \<le> length params \<Longrightarrow> length params < k + (sz - j) \<Longrightarrow>
   copy_slice params sz j k t = Inl (ReadPastEnd (length params))"
proof (induction params sz j k t rule: copy_slice.induct)
  case (1 params sz j k t)
  from "1.prems" have jl: "j < sz" by arith
  show ?case
  proof (cases "k < length params")
    case False
    with "1.prems" have "k = length params" by simp
    then show ?thesis using jl by (subst copy_slice.simps) simp
  next
    case True
    have "copy_slice params sz j k t = copy_slice params sz (j + 1) (k + 1) (t[j := params ! k])"
      using True jl by (subst copy_slice.simps) simp
    also have "\<dots> = Inl (ReadPastEnd (length params))"
      using "1.IH" [OF jl True] "1.prems" True jl by simp
    finally show ?thesis .
  qed
qed

lemma slice_start_Suc:
  "i < length args \<Longrightarrow> slice_start args (Suc i) = slice_start args i + size_Parameter (args ! i)"
  by (simp add: slice_start_def total_size_def take_Suc_conv_app_nth)

lemma slice_start_le_total: "slice_start args i \<le> total_size args"
proof -
  have "total_size args = total_size (take i args) + total_size (drop i args)"
    unfolding total_size_def by (metis append_take_drop_id map_append sum_list_append)
  then show ?thesis by (simp add: slice_start_def)
qed

lemma slice_start_length: "slice_start args (length args) = total_size args"
  by (simp add: slice_start_def)

lemma slice_start_0: "slice_start args 0 = 0"
  by (simp add: slice_start_def total_size_def)


lemma test_loop_fits:
  "i \<le> length args \<Longrightarrow> k = slice_start args i \<Longrightarrow> total_size args \<le> length params \<Longrightarrow>
   \<exists>c. test_loop args params i k =
         Inr ((\<forall>m. i \<le> m \<and> m < length args \<longrightarrow> testParams (args ! m) (slice_of args params m)), c)
       \<and> c \<le> total_size args"
proof (induction args params i k rule: test_loop.induct)
  case (1 args params i k)
  show ?case
  proof (cases "i < length args")
    case False
    with "1.prems" have "i = length args" by simp
    then show ?thesis using "1.prems"
      by (subst test_loop.simps) (auto simp add: slice_start_length)
  next
    case True
    define sz where "sz = size_Parameter (args ! i)"
    have nxt: "slice_start args (Suc i) = k + sz"
      using True "1.prems" by (simp add: slice_start_Suc sz_def)
    have bound: "k + sz \<le> length params"
      using slice_start_le_total [of args "Suc i"] nxt "1.prems" by simp
    have cp: "copy_slice params sz 0 k (replicate sz 0) = Inr (slice_of args params i, k + sz)"
      using copy_slice_fits [of 0 sz "replicate sz 0" k params] bound "1.prems"
      by (simp add: slice_of_def sz_def)
    show ?thesis
    proof (cases "testParams (args ! i) (slice_of args params i)")
      case False
      have "test_loop args params i k = Inr (False, k + sz)"
        using True False cp by (subst test_loop.simps) (simp add: sz_def [symmetric])
      moreover have "k + sz \<le> total_size args"
        using slice_start_le_total [of args "Suc i"] nxt by simp
      moreover have "\<not> (\<forall>m. i \<le> m \<and> m < length args \<longrightarrow> testParams (args ! m) (slice_of args params m))"
        using True False by auto
      ultimately show ?thesis by simp
    next
      case ok: True
      have step: "test_loop args params i k = test_loop args params (i + 1) (k + sz)"
        using True ok cp by (subst test_loop.simps) (simp add: sz_def [symmetric])
      have "\<exists>c. test_loop args params (i + 1) (k + sz) =
              Inr ((\<forall>m. i + 1 \<le> m \<and> m < length args \<longrightarrow> testParams (args ! m) (slice_of args params m)), c)
            \<and> c \<le> total_size args"
        using "1.IH" [OF True sz_def cp refl] True ok nxt "1.prems" by simp
      moreover have "(\<forall>m. i + 1 \<le> m \<and> m < length args \<longrightarrow> testParams (args ! m) (slice_of args params m))
          = (\<forall>m. i \<le> m \<and> m < length args \<longrightarrow> testParams (args ! m) (slice_of args params m))"
        using ok by (metis Suc_eq_plus1 Suc_leI le_neq_implies_less not_less_eq_eq le_SucI)
      ultimately show ?thesis using step by simp
    qed
  qed
qed


lemma test_loop_short:
  "i \<le> length args \<Longrightarrow> k = slice_start args i \<Longrightarrow> k \<le> length params \<Longrightarrow>
   length params < total_size args \<Longrightarrow>
   (\<exists>c. test_loop args params i k = Inr (False, c) \<and> c \<le> length params)
   \<or> test_loop args params i k = Inl (ReadPastEnd (length params))"
proof (induction args params i k rule: test_loop.induct)
  case (1 args params i k)
  have "i \<noteq> length args"
    using "1.prems" by (auto simp: slice_start_length)
  with "1.prems" have True: "i < length args" by simp
  define sz where "sz = size_Parameter (args ! i)"
  have nxt: "slice_start args (Suc i) = k + sz"
    using True "1.prems" by (simp add: slice_start_Suc sz_def)
  show ?case
  proof (cases "k + sz \<le> length params")
    case False
    have "copy_slice params sz 0 k (replicate sz 0) = Inl (ReadPastEnd (length params))"
      using copy_slice_past [of 0 sz k params] False "1.prems" by simp
    then have "test_loop args params i k = Inl (ReadPastEnd (length params))"
      using True by (subst test_loop.simps) (simp add: sz_def [symmetric])
    then show ?thesis by simp
  next
    case fits: True
    have cp: "copy_slice params sz 0 k (replicate sz 0) = Inr (slice_of args params i, k + sz)"
      using copy_slice_fits [of 0 sz "replicate sz 0" k params] fits "1.prems"
      by (simp add: slice_of_def sz_def)
    show ?thesis
    proof (cases "testParams (args ! i) (slice_of args params i)")
      case False
      have "test_loop args params i k = Inr (False, k + sz)"
        using True False cp by (subst test_loop.simps) (simp add: sz_def [symmetric])
      then show ?thesis using fits by simp
    next
      case ok: True
      have step: "test_loop args params i k = test_loop args params (i + 1) (k + sz)"
        using True ok cp by (subst test_loop.simps) (simp add: sz_def [symmetric])
      show ?thesis
        unfolding step
        using "1.IH" [OF True sz_def cp refl] True ok nxt fits "1.prems" by simp
    qed
  qed
qed

lemma slice_of_take:
  assumes "i < length args"
  shows "slice_of args (take (total_size args) v) i = slice_of args v i"
proof -
  have "slice_start args i + size_Parameter (args ! i) \<le> total_size args"
    using slice_start_le_total [of args "Suc i"] assms by (simp add: slice_start_Suc)
  then show ?thesis
    by (simp add: slice_of_def drop_take min_def)
qed

lemma test_fits:
  assumes "total_size args \<le> length v"
  shows "test args v = Inr (\<forall>i<length args. testParams (args ! i) (slice_of args v i))"
proof -
  obtain c where "test_loop args v 0 0 =
      Inr ((\<forall>m. 0 \<le> m \<and> m < length args \<longrightarrow> testParams (args ! m) (slice_of args v m)), c)"
    using test_loop_fits [of 0 args 0 v] assms by (auto simp: slice_start_0)
  then show ?thesis by (simp add: test_def)
qed

lemma slice_of_length:
  assumes "i < length args" "total_size args \<le> length v"
  shows "length (slice_of args v i) = size_Parameter (args ! i)"
proof -
  have "slice_start args i + size_Parameter (args ! i) \<le> total_size args"
    using slice_start_le_total [of args "Suc i"] assms by (simp add: slice_start_Suc)
  then show ?thesis using assms by (simp add: slice_of_def)
qed

lemma slices_concat:
  "n \<le> length args \<Longrightarrow> concat (map (slice_of args v) [0..<n]) = take (slice_start args n) v"
proof (induction n)
  case 0
  then show ?case by (simp add: slice_start_0)
next
  case (Suc n)
  then have ih: "concat (map (slice_of args v) [0..<n]) = take (slice_start args n) v"
    by simp
  have "concat (map (slice_of args v) [0..<Suc n])
      = take (slice_start args n) v @ take (size_Parameter (args ! n)) (drop (slice_start args n) v)"
    by (simp add: ih) (simp add: slice_of_def)
  also have "\<dots> = take (slice_start args n + size_Parameter (args ! n)) v"
    by (simp add: take_add)
  finally show ?case using Suc.prems by (simp add: slice_start_Suc)
qed

lemma slice_start_mono: "i \<le> j \<Longrightarrow> slice_start args i \<le> slice_start args j"
proof -
  assume ij: "i \<le> j"
  have "take j args = take i args @ drop i (take j args)"
    using ij by (metis append_take_drop_id min.absorb1 take_take)
  then have "total_size (take j args) = total_size (take i args) + total_size (drop i (take j args))"
    unfolding total_size_def by (metis map_append sum_list_append)
  then show ?thesis by (simp add: slice_start_def)
qed

lemma test_loop_short_exact:
  "i \<le> length args \<Longrightarrow> k = slice_start args i \<Longrightarrow> k \<le> length params \<Longrightarrow>
   length params < total_size args \<Longrightarrow>
   ((\<exists>m. i \<le> m \<and> m < length args \<and> slice_start args (Suc m) \<le> length params
         \<and> \<not> testParams (args ! m) (slice_of args params m))
      \<longrightarrow> (\<exists>c. test_loop args params i k = Inr (False, c)))
   \<and> (\<not> (\<exists>m. i \<le> m \<and> m < length args \<and> slice_start args (Suc m) \<le> length params
         \<and> \<not> testParams (args ! m) (slice_of args params m))
      \<longrightarrow> test_loop args params i k = Inl (ReadPastEnd (length params)))"
proof (induction args params i k rule: test_loop.induct)
  case (1 args params i k)
  let ?R = "\<lambda>i. \<exists>m. i \<le> m \<and> m < length args \<and> slice_start args (Suc m) \<le> length params
         \<and> \<not> testParams (args ! m) (slice_of args params m)"
  have "i \<noteq> length args"
    using "1.prems" by (auto simp: slice_start_length)
  with "1.prems" have True: "i < length args" by simp
  define sz where "sz = size_Parameter (args ! i)"
  have nxt: "slice_start args (Suc i) = k + sz"
    using True "1.prems" by (simp add: slice_start_Suc sz_def)
  show ?case
  proof (cases "k + sz \<le> length params")
    case False
    have "copy_slice params sz 0 k (replicate sz 0) = Inl (ReadPastEnd (length params))"
      using copy_slice_past [of 0 sz k params] False "1.prems" by simp
    then have res: "test_loop args params i k = Inl (ReadPastEnd (length params))"
      using True by (subst test_loop.simps) (simp add: sz_def [symmetric])
    have "\<not> ?R i"
    proof
      assume "?R i"
      then obtain m where m: "i \<le> m" "slice_start args (Suc m) \<le> length params" by blast
      have "slice_start args (Suc i) \<le> slice_start args (Suc m)"
        using m(1) by (intro slice_start_mono) simp
      with m(2) nxt False show False by simp
    qed
    with res show ?thesis by simp
  next
    case fits: True
    have cp: "copy_slice params sz 0 k (replicate sz 0) = Inr (slice_of args params i, k + sz)"
      using copy_slice_fits [of 0 sz "replicate sz 0" k params] fits "1.prems"
      by (simp add: slice_of_def sz_def)
    show ?thesis
    proof (cases "testParams (args ! i) (slice_of args params i)")
      case False
      have "test_loop args params i k = Inr (False, k + sz)"
        using True False cp by (subst test_loop.simps) (simp add: sz_def [symmetric])
      moreover have "?R i"
        using True False fits nxt by (intro exI [of _ i]) simp
      ultimately show ?thesis by simp
    next
      case ok: True
      have step: "test_loop args params i k = test_loop args params (i + 1) (k + sz)"
        using True ok cp by (subst test_loop.simps) (simp add: sz_def [symmetric])
      have eq: "?R i = ?R (i + 1)"
      proof
        assume "?R i"
        then obtain m where m: "i \<le> m" "m < length args" "slice_start args (Suc m) \<le> length params"
          "\<not> testParams (args ! m) (slice_of args params m)" by blast
        with ok have "m \<noteq> i" by auto
        with m(1) have "i + 1 \<le> m" by simp
        with m show "?R (i + 1)" by blast
      next
        assume "?R (i + 1)"
        then obtain m where m: "i + 1 \<le> m" "m < length args" "slice_start args (Suc m) \<le> length params"
          "\<not> testParams (args ! m) (slice_of args params m)" by blast
        then have "i \<le> m" by simp
        with m show "?R i" by blast
      qed
      have ih: "(?R (i + 1) \<longrightarrow> (\<exists>c. test_loop args params (i + 1) (k + sz) = Inr (False, c)))
        \<and> (\<not> ?R (i + 1) \<longrightarrow> test_loop args params (i + 1) (k + sz) = Inl (ReadPastEnd (length params)))"
        using "1.IH" [OF True sz_def cp refl] True ok nxt fits "1.prems" by simp
      show ?thesis unfolding step eq using ih by blast
    qed
  qed
qed

lemma test_short_exact:
  assumes "length v < total_size args"
  shows "test args v =
     (if \<exists>i<length args. slice_start args (Suc i) \<le> length v
            \<and> \<not> testParams (args ! i) (slice_of args v i)
      then Inr False else Inl (ReadPastEnd (length v)))"
proof -
  have eq: "(\<exists>m. 0 \<le> m \<and> m < length args \<and> slice_start args (Suc m) \<le> length v
         \<and> \<not> testParams (args ! m) (slice_of args v m))
     = (\<exists>i<length args. slice_start args (Suc i) \<le> length v
            \<and> \<not> testParams (args ! i) (slice_of args v i))"
    by auto
  show ?thesis
    using test_loop_short_exact [of 0 args 0 v] assms unfolding eq
    by (auto simp: slice_start_0 test_def)
qed

subsection \<open>The result on a vector of the right length\<close>

text \<open>
  C2: when the length of \<open>v\<close> is the sum of the sizes of the parameters, the slices
  \<open>slice_of arguments v i\<close> are contiguous pieces of \<open>v\<close> in the order of the
  parameters (their concatenation is \<open>v\<close>), the slice of parameter \<open>i\<close> has the size of
  parameter \<open>i\<close>, and \<^verbatim>\<open>test\<close> returns normally the conjunction of the parameters'
  \<^verbatim>\<open>testParams\<close> on their own slices: true if and only if every parameter accepts its
  slice, false (and no fault) as soon as one does not.
\<close>
theorem test_conjunction_of_slices:
  "length v = total_size arguments \<Longrightarrow>
     concat (map (slice_of arguments v) [0..<length arguments]) = v
   \<and> (\<forall>i<length arguments. length (slice_of arguments v i) = size_Parameter (arguments ! i))
   \<and> test arguments v = Inr (\<forall>i<length arguments. testParams (arguments ! i) (slice_of arguments v i))"
  using slices_concat [of "length arguments" arguments v] slice_of_length [of _ arguments v]
    test_fits [of arguments v]
  by (simp add: slice_start_length)

theorem test_conjunction_of_slices_witness:
  "length [5, 1, 2 :: real] = total_size [any_param, positive_pair]
   \<and> slice_of [any_param, positive_pair] [5, 1, 2] 0 = [5]
   \<and> slice_of [any_param, positive_pair] [5, 1, 2] 1 = [1, 2]
   \<and> test [any_param, positive_pair] [5, 1, 2] = Inr True
   \<and> length [5, -1, 2 :: real] = total_size [any_param, positive_pair]
   \<and> test [any_param, positive_pair] [5, -1, 2] = Inr False"
proof -
  have h1: "length [5, 1, 2 :: real] = total_size [any_param, positive_pair]"
    by (simp add: total_size_def size_Parameter_def any_param_def positive_pair_def)
  have h2: "length [5, -1, 2 :: real] = total_size [any_param, positive_pair]"
    by (simp add: total_size_def size_Parameter_def any_param_def positive_pair_def)
  show ?thesis
    using h1 h2 test_conjunction_of_slices [OF h1] test_conjunction_of_slices [OF h2]
    by (simp add: slice_of_def slice_start_def total_size_def size_Parameter_def testParams_def
        any_param_def positive_pair_def less_Suc_eq)
qed

subsection \<open>The result on a vector of another length\<close>

text \<open>
  C1, as stated, asks for a contract violation whenever the length of the vector differs
  from the sum of the sizes. With one parameter of size one that accepts everything and a
  vector of two entries, \<^verbatim>\<open>test\<close> returns true.
\<close>

theorem test_length_mismatch_counterexample:
  "length [0, 0 :: real] \<noteq> total_size [any_param] \<and> test [any_param] [0, 0] = Inr True"
  by (simp add: test_def test_loop.simps copy_slice.simps size_Parameter_def testParams_def
      total_size_def any_param_def)

text \<open>
  C1, amended: \<^verbatim>\<open>test\<close> has no check of the length of its argument. On a vector with
  more entries than the sum of the sizes it returns normally the conjunction of the
  parameters' \<^verbatim>\<open>testParams\<close> on the slices of the leading entries, which is also its
  result on the vector cut to that length: the trailing entries are ignored. On a vector
  with fewer entries there is no check either, and the outcome is decided exactly by the
  parameters whose slices lie inside the vector: if one of them rejects its slice the
  result is false, and otherwise the loop comes to read \<^verbatim>\<open>params[k]\<close> with \<open>k\<close> the
  length of the vector, and what follows is left to \<^verbatim>\<open>Array::operator[]\<close>.
\<close>

theorem test_has_no_length_check:
  "(total_size arguments < length v \<longrightarrow>
      test arguments v = Inr (\<forall>i<length arguments. testParams (arguments ! i) (slice_of arguments v i))
    \<and> test arguments v = test arguments (take (total_size arguments) v))
   \<and> (length v < total_size arguments \<longrightarrow>
      test arguments v =
        (if \<exists>i<length arguments. slice_start arguments (Suc i) \<le> length v
               \<and> \<not> testParams (arguments ! i) (slice_of arguments v i)
         then Inr False else Inl (ReadPastEnd (length v))))"
proof (intro conjI impI)
  assume long: "total_size arguments < length v"
  then show "test arguments v = Inr (\<forall>i<length arguments. testParams (arguments ! i) (slice_of arguments v i))"
    by (simp add: test_fits)
  show "test arguments v = test arguments (take (total_size arguments) v)"
    using long by (simp add: test_fits slice_of_take)
next
  assume "length v < total_size arguments"
  then show "test arguments v =
        (if \<exists>i<length arguments. slice_start arguments (Suc i) \<le> length v
               \<and> \<not> testParams (arguments ! i) (slice_of arguments v i)
         then Inr False else Inl (ReadPastEnd (length v)))"
    by (rule test_short_exact)
qed

theorem test_has_no_length_check_witness:
  "total_size [any_param] < length [3, 4 :: real]
   \<and> test [any_param] [3, 4] = Inr True
   \<and> test [any_param] [3, 4] = test [any_param] [3]
   \<and> length ([] :: real list) < total_size [any_param]
   \<and> test [any_param] [] = Inl (ReadPastEnd 0)
   \<and> length [7 :: real] < total_size [no_param, any_param]
   \<and> test [no_param, any_param] [7] = Inr False
   \<and> length [7 :: real] < total_size [any_param, no_param]
   \<and> test [any_param, no_param] [7] = Inl (ReadPastEnd 1)"
  using test_has_no_length_check [of "[any_param]" "[3, 4]"]
    test_has_no_length_check [of "[any_param]" "[]"]
    test_has_no_length_check [of "[no_param, any_param]" "[7]"]
    test_has_no_length_check [of "[any_param, no_param]" "[7]"]
  by (simp add: test_def test_loop.simps copy_slice.simps size_Parameter_def testParams_def
      total_size_def slice_of_def slice_start_def any_param_def no_param_def)

subsection \<open>The entries that are read\<close>

lemma test_loop_reads:
  "(test_loop arguments v 0 0 = Inr (b, c) \<longrightarrow> c \<le> total_size arguments)
   \<and> (test_loop arguments v 0 0 = Inl (ReadPastEnd n) \<longrightarrow> n < total_size arguments)"
proof (cases "total_size arguments \<le> length v")
  case True
  then show ?thesis
    using test_loop_fits [of 0 arguments 0 v] by (auto simp: slice_start_0)
next
  case False
  then show ?thesis
    using test_loop_short [of 0 arguments 0 v] by (auto simp: slice_start_0)
qed

text \<open>
  C9: the result of \<^verbatim>\<open>test\<close> is a function of the first \<open>total_size arguments\<close>
  entries of its argument: two vectors that agree there, whatever their lengths and
  trailing entries, give the same result. No entry at an index from \<open>total_size arguments\<close>
  on is read: when the function returns, the cursor \<^verbatim>\<open>k\<close>, which counts the entries
  read, is at most \<open>total_size arguments\<close>, and a read past the end of a short vector
  is at an index below \<open>total_size arguments\<close> as well.
\<close>

theorem test_reads_only_its_slices:
  "take (total_size arguments) v = take (total_size arguments) w \<Longrightarrow>
     test arguments v = test arguments w
   \<and> (\<forall>b c. test_loop arguments v 0 0 = Inr (b, c) \<longrightarrow> c \<le> total_size arguments)
   \<and> (\<forall>n. test_loop arguments v 0 0 = Inl (ReadPastEnd n) \<longrightarrow> n < total_size arguments)"
proof (intro conjI allI)
  assume eq: "take (total_size arguments) v = take (total_size arguments) w"
  show "test arguments v = test arguments w"
  proof (cases "total_size arguments \<le> length v")
    case True
    have "length (take (total_size arguments) w) = total_size arguments"
      using True eq [symmetric] by simp
    then have w: "total_size arguments \<le> length w" by simp
    have "\<forall>i<length arguments. slice_of arguments v i = slice_of arguments w i"
      using eq by (metis slice_of_take)
    then show ?thesis using True w by (simp add: test_fits)
  next
    case False
    then have v: "take (total_size arguments) v = v" by simp
    have "length (take (total_size arguments) w) = length v"
      using eq [symmetric] v by simp
    then have "length w = length v" using False by (simp add: min_def split: if_splits)
    then have "take (total_size arguments) w = w" using False by simp
    with v eq show ?thesis by simp
  qed
qed (use test_loop_reads in blast)+

theorem test_reads_only_its_slices_witness:
  "take (total_size [any_param, positive_pair]) [5, 1, 2, 8, 9 :: real]
     = take (total_size [any_param, positive_pair]) [5, 1, 2, 0]
   \<and> test [any_param, positive_pair] [5, 1, 2, 8, 9] = Inr True
   \<and> test [any_param, positive_pair] [5, 1, 2, 0] = Inr True
   \<and> test_loop [any_param, positive_pair] [5, 1, 2, 8, 9] 0 0 = Inr (True, 3)"
proof -
  have h: "take (total_size [any_param, positive_pair]) [5, 1, 2, 8, 9 :: real]
     = take (total_size [any_param, positive_pair]) [5, 1, 2, 0]"
    by (simp add: total_size_def size_Parameter_def any_param_def positive_pair_def)
  show ?thesis
    using h test_reads_only_its_slices [OF h]
    by (simp add: test_def test_loop.simps copy_slice.simps size_Parameter_def testParams_def
      total_size_def any_param_def positive_pair_def)
qed

section \<open>Properties of the update of a calibrated model\<close>

text \<open>
  C3, as stated, has every call of \<^verbatim>\<open>update\<close> fire one change notification. With a
  hook that throws, \<^verbatim>\<open>update\<close> is left by the exception after the hook was entered, and
  the history holds no notification.
\<close>

theorem update_throwing_hook_counterexample:
  "update throwing_hook some_model =
     Inl (''arguments cannot be generated'',
          \<lparr>arguments_m = [any_param], observers_m = [4, 9], history = [Called_generateArguments]\<rparr>)"
  by (simp add: update_def generateArguments_def throwing_hook_def some_model_def)

text \<open>
  C3, amended: a call of \<^verbatim>\<open>update\<close> first invokes the hook \<^verbatim>\<open>generateArguments\<close>: the
  hook body is entered on the object, after \<open>Called_generateArguments\<close> was recorded.
  When the hook returns, \<^verbatim>\<open>update\<close> returns too, and what it adds after the hook is
  exactly one \<open>Called_notifyObservers\<close> followed by one update of each observer of the
  model. When the hook throws, \<^verbatim>\<open>update\<close> is left by the same exception with the object
  as the hook left it, and nothing is notified. For a hook that returns and records no
  call of its own and leaves the observers alone (as the empty body of the base class
  does), the calls that \<^verbatim>\<open>update\<close> adds to the history are \<^verbatim>\<open>generateArguments\<close>, then
  one \<^verbatim>\<open>notifyObservers\<close>, then one update per observer.
\<close>

theorem update_generates_then_notifies_once:
  "(body (m\<lparr>history := history m @ [Called_generateArguments]\<rparr>) = Inr m1 \<longrightarrow>
      update body m =
        Inr (m1\<lparr>history := history m1 @ Called_notifyObservers # map Observer_update (observers_m m1)\<rparr>))
   \<and> (body (m\<lparr>history := history m @ [Called_generateArguments]\<rparr>) = Inl (e, m1) \<longrightarrow>
      update body m = Inl (e, m1))
   \<and> ((\<forall>s. case body s of
              Inl thrown \<Rightarrow> False
            | Inr s1 \<Rightarrow> history s1 = history s \<and> observers_m s1 = observers_m s) \<longrightarrow>
       (case update body m of
          Inl thrown \<Rightarrow> False
        | Inr m2 \<Rightarrow>
            history m2 =
              history m @ [Called_generateArguments, Called_notifyObservers]
              @ map Observer_update (observers_m m)))"
proof (intro conjI impI)
  assume "body (m\<lparr>history := history m @ [Called_generateArguments]\<rparr>) = Inr m1"
  then show "update body m =
        Inr (m1\<lparr>history := history m1 @ Called_notifyObservers # map Observer_update (observers_m m1)\<rparr>)"
    by (simp add: update_def generateArguments_def notifyObservers_def)
next
  assume "body (m\<lparr>history := history m @ [Called_generateArguments]\<rparr>) = Inl (e, m1)"
  then show "update body m = Inl (e, m1)"
    by (simp add: update_def generateArguments_def)
next
  assume quiet: "\<forall>s. case body s of
              Inl thrown \<Rightarrow> False
            | Inr s1 \<Rightarrow> history s1 = history s \<and> observers_m s1 = observers_m s"
  define m0 where "m0 = m\<lparr>history := history m @ [Called_generateArguments]\<rparr>"
  from quiet obtain s1 where s1: "body m0 = Inr s1" "history s1 = history m0"
      "observers_m s1 = observers_m m0"
    by (cases "body m0") (auto dest: spec [of _ m0])
  have "update body m = Inr (notifyObservers s1)"
    using s1(1) by (simp add: update_def generateArguments_def m0_def)
  moreover have "history (notifyObservers s1) =
      history m @ [Called_generateArguments, Called_notifyObservers]
      @ map Observer_update (observers_m m)"
    using s1(2,3) by (simp add: notifyObservers_def m0_def)
  ultimately show "case update body m of
          Inl thrown \<Rightarrow> False
        | Inr m2 \<Rightarrow>
            history m2 =
              history m @ [Called_generateArguments, Called_notifyObservers]
              @ map Observer_update (observers_m m)"
    by simp
qed

theorem update_generates_then_notifies_once_witness:
  "(\<forall>s. case doubling_hook s of
           Inl thrown \<Rightarrow> False
         | Inr s1 \<Rightarrow> history s1 = history s \<and> observers_m s1 = observers_m s)
   \<and> map_sum id history (update doubling_hook some_model) =
       Inr [Called_generateArguments, Called_notifyObservers, Observer_update 4, Observer_update 9]
   \<and> map_sum id arguments_m (update doubling_hook some_model) = Inr [any_param, any_param]
   \<and> map_sum id history (update generateArguments_base some_model) =
       Inr [Called_generateArguments, Called_notifyObservers, Observer_update 4, Observer_update 9]
   \<and> map_sum (map_prod id history) id (update throwing_hook some_model) =
       Inl (''arguments cannot be generated'', [Called_generateArguments])"
proof -
  have h: "\<forall>s. case doubling_hook s of
           Inl thrown \<Rightarrow> False
         | Inr s1 \<Rightarrow> history s1 = history s \<and> observers_m s1 = observers_m s"
    by (simp add: doubling_hook_def)
  have b: "\<forall>s. case generateArguments_base s of
           Inl thrown \<Rightarrow> False
         | Inr s1 \<Rightarrow> history s1 = history s \<and> observers_m s1 = observers_m s"
    by (simp add: generateArguments_base_def)
  have t: "throwing_hook (some_model\<lparr>history := history some_model @ [Called_generateArguments]\<rparr>)
      = Inl (''arguments cannot be generated'',
             some_model\<lparr>history := history some_model @ [Called_generateArguments]\<rparr>)"
    by (simp add: throwing_hook_def)
  have d: "doubling_hook (some_model\<lparr>history := history some_model @ [Called_generateArguments]\<rparr>)
      = Inr \<lparr>arguments_m = [any_param, any_param], observers_m = [4, 9],
             history = [Called_generateArguments]\<rparr>"
    by (simp add: doubling_hook_def some_model_def)
  have u1: "update doubling_hook some_model =
      Inr \<lparr>arguments_m = [any_param, any_param], observers_m = [4, 9],
           history = [Called_generateArguments, Called_notifyObservers,
                      Observer_update 4, Observer_update 9]\<rparr>"
    using d update_generates_then_notifies_once [where body = doubling_hook and m = some_model
        and ?m1.0 = "\<lparr>arguments_m = [any_param, any_param], observers_m = [4, 9],
          history = [Called_generateArguments]\<rparr>"]
    by simp
  have "case update generateArguments_base some_model of
          Inl thrown \<Rightarrow> False
        | Inr m2 \<Rightarrow>
            history m2 =
              history some_model @ [Called_generateArguments, Called_notifyObservers]
              @ map Observer_update (observers_m some_model)"
    using b update_generates_then_notifies_once [where body = generateArguments_base and m = some_model]
    by blast
  then have u2: "map_sum id history (update generateArguments_base some_model) =
       Inr [Called_generateArguments, Called_notifyObservers, Observer_update 4, Observer_update 9]"
    by (cases "update generateArguments_base some_model") (simp_all add: some_model_def)
  have u3: "update throwing_hook some_model =
      Inl (''arguments cannot be generated'',
           some_model\<lparr>history := history some_model @ [Called_generateArguments]\<rparr>)"
    using t update_generates_then_notifies_once [where body = throwing_hook and m = some_model
        and e = "''arguments cannot be generated''"
        and ?m1.0 = "some_model\<lparr>history := history some_model @ [Called_generateArguments]\<rparr>"]
    by blast
  show ?thesis
    using h by (simp add: u1 u2 u3) (simp add: some_model_def)
qed

section \<open>Properties of models consistent with a term structure\<close>

text \<open>
  C10, as stated, has no operation of the class ever replace the stored handle. The
  implicitly declared copy assignment does: a model constructed over handle 1, assigned
  from a model constructed over handle 2, then returns handle 2.
\<close>

theorem stored_handle_replaced_counterexample:
  "fst (new_TermStructureConsistentModel 1 (empty_store :: nat curve_store))
     = Inr \<lparr>termStructure_m = 1\<rparr>
   \<and> fst (new_TermStructureConsistentModel 2 (empty_store :: nat curve_store))
     = Inr \<lparr>termStructure_m = 2\<rparr>
   \<and> termStructure \<lparr>termStructure_m = 1\<rparr> = 1
   \<and> termStructure (copy_assign \<lparr>termStructure_m = 1\<rparr> \<lparr>termStructure_m = 2\<rparr>) = 2
   \<and> termStructure (copy_assign \<lparr>termStructure_m = 1\<rparr> \<lparr>termStructure_m = 2\<rparr>) \<noteq> 1"
  by (simp add: new_TermStructureConsistentModel_def termStructure_def copy_assign_def)

text \<open>
  C10, amended: for every handle \<open>h\<close> and every store, the cell of \<open>h\<close> being empty or
  not, the constructor succeeds and leaves the store as it was, the record of queries
  included (a query through \<open>h\<close> would have left its trace there); the accessor
  \<^verbatim>\<open>termStructure\<close> of the constructed model returns \<open>h\<close>, that is the same cell; and
  the only operation that replaces the stored handle is the copy assignment, after which
  the accessor returns the handle of the model assigned from.
\<close>

theorem termStructure_round_trip:
  "new_TermStructureConsistentModel h s = (Inr \<lparr>termStructure_m = h\<rparr>, s)
   \<and> snd (query_link h s) \<noteq> snd (new_TermStructureConsistentModel h s)
   \<and> termStructure \<lparr>termStructure_m = h\<rparr> = h
   \<and> termStructure (copy_assign m other) = termStructure other"
proof -
  have "queried (snd (query_link h s)) \<noteq> queried s"
    by (simp add: query_link_def)
  then have "snd (query_link h s) \<noteq> s" by auto
  then show ?thesis
    by (simp add: new_TermStructureConsistentModel_def termStructure_def copy_assign_def)
qed

section \<open>Properties of curve decorators and change notification\<close>

lemma new_decorator_eq:
  "new_decorator kind h spread w =
     (next_id w,
      (case spread of None \<Rightarrow> (\<lambda>v. v) | Some q \<Rightarrow> registerWith (next_id w) q)
        (registerWith (next_id w) h
          (w\<lparr>objects := (objects w)(next_id w \<mapsto> Decorator kind h spread), next_id := Suc (next_id w)\<rparr>)))"
  by (simp add: new_decorator_def new_object_def split: option.splits)

lemma objects_registerWith [simp]: "objects (registerWith a b w) = objects w"
  by (simp add: registerWith_def)

lemma update_calls_registerWith [simp]: "update_calls (registerWith a b w) = update_calls w"
  by (simp add: registerWith_def)

lemma observers_registerWith:
  "observers_of (registerWith a b w) c =
     (if c = b \<and> a \<notin> set (observers_of w b) then observers_of w b @ [a] else observers_of w c)"
  by (simp add: registerWith_def)

text \<open>
  C4: let \<open>h\<close> be an empty handle that nothing observes yet, in a store whose next
  address is unused. Constructing a decorator of any kind over \<open>h\<close> succeeds (the
  decorator is in the store afterwards); any query on it while \<open>h\<close> is empty fails with
  the no-underlying-curve condition; relinking \<open>h\<close> to a curve returns, and the same query
  then succeeds with the closed form of the decorator on that curve; relinking \<open>h\<close> back
  to empty returns as well, and only a query made then fails again.
\<close>
theorem decorator_over_empty_handle:
  assumes "objects w h = Some (Link None)" and "observers_of w h = []"
    and "objects w (next_id w) = None" and "observers_of w (next_id w) = []"
    and "spread \<noteq> Some (next_id w)"
  shows "case new_decorator kind h spread w of (d, w1) \<Rightarrow>
        objects w1 d = Some (Decorator kind h spread)
      \<and> decorator_query closed_form w1 d qy = Inl NoUnderlyingCurve
      \<and> (case linkTo (Suc fuel) h (Some c) w1 of
           None \<Rightarrow> False
         | Some w2 \<Rightarrow>
             decorator_query closed_form w2 d qy = Inr (closed_form kind (spread_value w2 spread) c qy)
           \<and> (case linkTo (Suc fuel) h None w2 of
                None \<Rightarrow> False
              | Some w3 \<Rightarrow> decorator_query closed_form w3 d qy = Inl NoUnderlyingCurve))"
proof -
  define d where "d = next_id w"
  obtain w1 where nd: "new_decorator kind h spread w = (d, w1)"
    by (simp add: new_decorator_eq d_def)
  have hd: "h \<noteq> d" using assms by (auto simp: d_def)
  have o1: "objects w1 = (objects w)(d \<mapsto> Decorator kind h spread)"
    using nd by (auto simp: new_decorator_eq d_def split: option.splits)
  have obs_h: "observers_of w1 h = [d]"
    using nd assms by (auto simp: new_decorator_eq d_def observers_registerWith split: option.splits)
  have obs_d: "observers_of w1 d = []"
    using nd assms hd by (auto simp: new_decorator_eq d_def observers_registerWith split: option.splits)
  have q1: "decorator_query closed_form w1 d qy = Inl NoUnderlyingCurve"
    using assms hd by (simp add: decorator_query_def o1 links_of_def currentLink_def)
  define w2 where "w2 = (w1\<lparr>objects := (objects w1)(h \<mapsto> Link (Some c))\<rparr>)
      \<lparr>update_calls := (update_calls w1)(d := Suc (update_calls w1 d))\<rparr>"
  have l2: "linkTo (Suc fuel) h (Some c) w1 = Some w2"
    using hd by (simp add: linkTo_def obs_h update_hook_def o1 obs_d w2_def)
  have o2: "objects w2 = (objects w1)(h \<mapsto> Link (Some c))" by (simp add: w2_def)
  have q2: "decorator_query closed_form w2 d qy = Inr (closed_form kind (spread_value w2 spread) c qy)"
    using hd by (simp add: decorator_query_def o2 o1 links_of_def currentLink_def)
  define w3 where "w3 = (w2\<lparr>objects := (objects w2)(h \<mapsto> Link None)\<rparr>)
      \<lparr>update_calls := (update_calls w2)(d := Suc (update_calls w2 d))\<rparr>"
  have l3: "linkTo (Suc fuel) h None w2 = Some w3"
    using hd by (simp add: linkTo_def w2_def obs_h update_hook_def o1 obs_d w3_def)
  have q3: "decorator_query closed_form w3 d qy = Inl NoUnderlyingCurve"
    using hd by (simp add: decorator_query_def w3_def o2 o1 links_of_def currentLink_def)
  show ?thesis
    using o1 q1 q2 q3 by (simp add: nd l2 l3)
qed


theorem decorator_over_empty_handle_witness:
  "objects null_underlying_world 1 = Some (Link None)
   \<and> observers_of null_underlying_world 1 = []
   \<and> objects null_underlying_world (next_id null_underlying_world) = None
   \<and> observers_of null_underlying_world (next_id null_underlying_world) = []
   \<and> Some 0 \<noteq> Some (next_id null_underlying_world)
   \<and> fst (new_decorator ZeroSpreaded 1 (Some 0) null_underlying_world) = 2
   \<and> decorator_query curve_number (snd (new_decorator ZeroSpreaded 1 (Some 0) null_underlying_world))
        2 ReferenceDate = Inl NoUnderlyingCurve
   \<and> map_option (\<lambda>w2. decorator_query curve_number w2 2 ReferenceDate)
        (linkTo 1 1 (Some 7) (snd (new_decorator ZeroSpreaded 1 (Some 0) null_underlying_world)))
      = Some (Inr 7)"
  using decorator_over_empty_handle [of null_underlying_world 1 "Some 0" ZeroSpreaded
      curve_number ReferenceDate 0 7]
  by (simp add: null_underlying_world_def new_object_def empty_world_def new_decorator_def
      registerWith_def linkTo_def update_hook_def decorator_query_def links_of_def
      currentLink_def spread_value_def curve_number_def eval_nat_numeral)
























end
